theory Spec2Isabelle
  imports Complex_Main
begin

section \<open>Values\<close>

text \<open>
  The program handles the Python values that \<^verbatim>\<open>response.json()\<close> produces: \<^verbatim>\<open>None\<close>,
  booleans, integers, floats, strings, lists and dicts with string keys. A dict is an
  association list in insertion order. A string of these values is the list of its code
  points, so that it can hold any character a JSON body can: the escape \<^verbatim>\<open>\ud800\<close>
  parses to the lone surrogate with code point 55296. \<^term>\<open>py\<close> gives the string of
  an ASCII literal of the program.
\<close>

type_synonym pystr = "nat list"

definition py :: "string \<Rightarrow> pystr" where
  "py s = map of_char s"

datatype pyfloat = Finite real | PosInfinity | NegInfinity | NaN

datatype json =
    JNull
  | JBool bool
  | JInt int
  | JFloat pyfloat
  | JStr pystr
  | JArr "json list"
  | JObj "(pystr \<times> json) list"

datatype error =
    RequestException
  | JSONDecodeError
  | TypeError
  | KeyError
  | IndexError
  | AttributeError
  | ValueError
  | UnicodeEncodeError
  | SystemExit

text \<open>Truth value testing, as \<^verbatim>\<open>if data\<close> and \<^verbatim>\<open>not items\<close> apply it.\<close>

fun truthy :: "json \<Rightarrow> bool" where
  "truthy JNull = False"
| "truthy (JBool b) = b"
| "truthy (JInt n) = (n \<noteq> 0)"
| "truthy (JFloat (Finite r)) = (r \<noteq> 0)"
| "truthy (JFloat _) = True"
| "truthy (JStr s) = (s \<noteq> [])"
| "truthy (JArr xs) = (xs \<noteq> [])"
| "truthy (JObj kvs) = (kvs \<noteq> [])"

text \<open>\<^verbatim>\<open>sub in s\<close> on two strings: \<^verbatim>\<open>sub\<close> occurs in \<^verbatim>\<open>s\<close> as a contiguous run.\<close>

fun starts_with :: "'a list \<Rightarrow> 'a list \<Rightarrow> bool" where
  "starts_with s [] = True"
| "starts_with [] (p # ps) = False"
| "starts_with (c # cs) (p # ps) = (c = p \<and> starts_with cs ps)"

fun str_contains :: "'a list \<Rightarrow> 'a list \<Rightarrow> bool" where
  "str_contains [] sub = (sub = [])"
| "str_contains (c # cs) sub = (starts_with (c # cs) sub \<or> str_contains cs sub)"

text \<open>
  \<^verbatim>\<open>'exceptions' in data\<close>: key membership on a dict, element membership on a list,
  substring test on a string, and \<^verbatim>\<open>TypeError\<close> on a value that is not a container.
\<close>

fun contains_key :: "pystr \<Rightarrow> json \<Rightarrow> error + bool" where
  "contains_key k (JObj kvs) = Inr (k \<in> set (map fst kvs))"
| "contains_key k (JArr xs) = Inr (JStr k \<in> set xs)"
| "contains_key k (JStr s) = Inr (str_contains s k)"
| "contains_key k _ = Inl TypeError"

text \<open>\<^verbatim>\<open>data['exceptions']\<close>: only a dict can be subscripted by a string.\<close>

fun getitem :: "json \<Rightarrow> pystr \<Rightarrow> error + json" where
  "getitem (JObj kvs) k = (case map_of kvs k of None \<Rightarrow> Inl KeyError | Some v \<Rightarrow> Inr v)"
| "getitem _ k = Inl TypeError"

text \<open>
  The elements \<^verbatim>\<open>results.extend(items)\<close> appends: those of a list, the characters of a
  string, the keys of a dict; any other value is not iterable.
\<close>

fun iter_items :: "json \<Rightarrow> error + json list" where
  "iter_items (JArr xs) = Inr xs"
| "iter_items (JStr s) = Inr (map (\<lambda>c. JStr [c]) s)"
| "iter_items (JObj kvs) = Inr (map (\<lambda>kv. JStr (fst kv)) kvs)"
| "iter_items _ = Inl TypeError"

section \<open>Formatting\<close>

text \<open>\<^verbatim>\<open>str(n)\<close> of an integer: its decimal digits, with a minus sign when negative.\<close>

definition digit_char :: "nat \<Rightarrow> char" where
  "digit_char d = ''0123456789'' ! d"

fun str_nat :: "nat \<Rightarrow> string" where
  "str_nat n = (if n < 10 then [digit_char n] else str_nat (n div 10) @ [digit_char (n mod 10)])"

declare str_nat.simps [simp del]

definition str_int :: "int \<Rightarrow> string" where
  "str_int i = (if i < 0 then CHR ''-'' # str_nat (nat (- i)) else str_nat (nat i))"

text \<open>
  \<^verbatim>\<open>template.format(**kw)\<close> for templates whose replacement fields are plain names:
  \<^verbatim>\<open>{{\<close> and \<^verbatim>\<open>}}\<close> stand for a brace, \<^verbatim>\<open>{name}\<close> is replaced by the keyword argument
  of that name (\<^verbatim>\<open>KeyError\<close> when there is none), and a brace left alone is a
  \<^verbatim>\<open>ValueError\<close>. The first argument is the field name read so far while inside a
  replacement field. Conversions, format specifications and attribute or index lookups
  are not modelled; \<^verbatim>\<open>base_url\<close> has none.
\<close>

fun format_from :: "string option \<Rightarrow> string \<Rightarrow> (string \<times> string) list \<Rightarrow> error + string" where
  "format_from None [] kw = Inr []"
| "format_from None (c # cs) kw =
     (if c = CHR ''{'' then
        (case cs of
           [] \<Rightarrow> Inl ValueError
         | d # ds \<Rightarrow>
             if d = CHR ''{'' then map_sum id ((#) c) (format_from None ds kw)
             else format_from (Some []) cs kw)
      else if c = CHR ''}'' then
        (case cs of
           [] \<Rightarrow> Inl ValueError
         | d # ds \<Rightarrow>
             if d = CHR ''}'' then map_sum id ((#) c) (format_from None ds kw)
             else Inl ValueError)
      else map_sum id ((#) c) (format_from None cs kw))"
| "format_from (Some name) [] kw = Inl ValueError"
| "format_from (Some name) (c # cs) kw =
     (if c = CHR ''}'' then
        (case map_of kw name of
           None \<Rightarrow> Inl KeyError
         | Some v \<Rightarrow> map_sum id ((@) v) (format_from None cs kw))
      else format_from (Some (name @ [c])) cs kw)"

definition format_str :: "string \<Rightarrow> (string \<times> string) list \<Rightarrow> error + string" where
  "format_str template kw = format_from None template kw"

section \<open>The HTTP exchange\<close>

record request =
  url :: string
  headers :: "(string \<times> string) list"

text \<open>
  What \<^verbatim>\<open>requests.get\<close> gives back: it raises (no connection, timeout), or it returns a
  response with a status code and a body. The body is held as the value
  \<^verbatim>\<open>response.json()\<close> returns, \<^term>\<open>None\<close> when the body is not JSON and that call
  raises.
\<close>

datatype reply =
    NoResponse
  | Response int "json option"

text \<open>What the program prints, one constructor for each \<^verbatim>\<open>print\<close> of the source.\<close>

datatype event =
    PrintData json
  | PrintPaginate int
  | PrintFailed int int
  | PrintJsonSaved nat
  | PrintCsvSaved nat
  | PrintInvalidFormat

section \<open>fetch_data\<close>

definition base_url :: string where
  "base_url = ''https://app.fossa.com/api/v2/issues/exceptions?filters[category]={category}&page={page}&count={count}''"

text \<open>The local variables of the loop, with the requests sent and the lines printed so far.\<close>

record loop_state =
  results :: "json list"
  page :: int
  sent :: "request list"
  printed :: "event list"

text \<open>How a call of \<^verbatim>\<open>fetch_data\<close> ends: the list it returns or the exception it raises.\<close>

record fetched =
  returned :: "error + json list"
  requests_sent :: "request list"
  lines_printed :: "event list"

datatype step = Next loop_state | Return fetched

definition finish :: "error + json list \<Rightarrow> loop_state \<Rightarrow> step" where
  "finish r s = Return \<lparr>returned = r, requests_sent = sent s, lines_printed = printed s\<rparr>"

text \<open>
  \<^verbatim>\<open>print(data)\<close> writes \<^verbatim>\<open>str(data)\<close> to standard output, which encodes it. A string
  is written as it is, and the write raises \<^verbatim>\<open>UnicodeEncodeError\<close> when standard output
  cannot encode one of its characters; which code points it can encode is set outside
  the program (locale, error handler) and is the parameter \<open>stdout_takes\<close>. \<^verbatim>\<open>str\<close> of
  any other value is its \<^verbatim>\<open>repr\<close>, which escapes the characters that cannot be printed,
  lone surrogates among them, and is taken to be encodable, as it is in UTF-8.
\<close>

fun can_print :: "(nat \<Rightarrow> bool) \<Rightarrow> json \<Rightarrow> bool" where
  "can_print stdout_takes (JStr s) = list_all stdout_takes s"
| "can_print stdout_takes _ = True"

text \<open>
  What the body of \<^verbatim>\<open>while True\<close> does with the response, lines 22 to 37, in a state
  that already counts the request as sent.
\<close>

definition on_response :: "(nat \<Rightarrow> bool) \<Rightarrow> loop_state \<Rightarrow> reply \<Rightarrow> step" where
  "on_response stdout_takes s1 response =
     (case response of
        NoResponse \<Rightarrow> finish (Inl RequestException) s1
      | Response status_code body \<Rightarrow>
          if status_code = 200 then
            (case body of
               None \<Rightarrow> finish (Inl JSONDecodeError) s1
             | Some data \<Rightarrow>
                 if \<not> can_print stdout_takes data then finish (Inl UnicodeEncodeError) s1
                 else
                 let s2 = s1\<lparr>printed := printed s1 @ [PrintData data, PrintPaginate (page s1)]\<rparr>
                 in if truthy data then
                      (case contains_key (py ''exceptions'') data of
                         Inl e \<Rightarrow> finish (Inl e) s2
                       | Inr False \<Rightarrow> finish (Inr (results s2)) s2
                       | Inr True \<Rightarrow>
                           (case getitem data (py ''exceptions'') of
                              Inl e \<Rightarrow> finish (Inl e) s2
                            | Inr items \<Rightarrow>
                                if \<not> truthy items then finish (Inr (results s2)) s2
                                else
                                  (case iter_items items of
                                     Inl e \<Rightarrow> finish (Inl e) s2
                                   | Inr xs \<Rightarrow>
                                       Next (s2\<lparr>results := results s2 @ xs,
                                                 page := page s2 + 1\<rparr>))))
                    else finish (Inr (results s2)) s2)
          else
            finish (Inr (results s1))
              (s1\<lparr>printed := printed s1 @ [PrintFailed (page s1) status_code]\<rparr>))"

text \<open>One pass through the body of \<^verbatim>\<open>while True\<close>: the request is built and sent.\<close>

definition iteration ::
  "(nat \<Rightarrow> bool) \<Rightarrow> (request \<Rightarrow> reply) \<Rightarrow> string \<Rightarrow> int \<Rightarrow> (string \<times> string) list \<Rightarrow>
   loop_state \<Rightarrow> step" where
  "iteration stdout_takes get category count hdrs s =
     (case format_str base_url
             [(''category'', category), (''page'', str_int (page s)), (''count'', str_int count)] of
        Inl e \<Rightarrow> finish (Inl e) s
      | Inr u \<Rightarrow>
          let req = \<lparr>url = u, headers = hdrs\<rparr>
          in on_response stdout_takes (s\<lparr>sent := sent s @ [req]\<rparr>) (get req))"

text \<open>The loop: it has no bound of its own, so a run that never leaves it is \<^term>\<open>None\<close>.\<close>

partial_function (option) fetch_loop ::
  "(nat \<Rightarrow> bool) \<Rightarrow> (request \<Rightarrow> reply) \<Rightarrow> string \<Rightarrow> int \<Rightarrow> (string \<times> string) list \<Rightarrow>
   loop_state \<Rightarrow> fetched option" where
  "fetch_loop stdout_takes get category count hdrs s =
     (case iteration stdout_takes get category count hdrs s of
        Next s' \<Rightarrow> fetch_loop stdout_takes get category count hdrs s'
      | Return r \<Rightarrow> Some r)"

text \<open>The \<^verbatim>\<open>headers\<close> dict, and the variables as they are set before the loop.\<close>

definition auth_headers :: "string \<Rightarrow> (string \<times> string) list" where
  "auth_headers access_token =
     [(''accept'', ''application/json''), (''authorization'', ''Bearer '' @ access_token)]"

definition initial :: loop_state where
  "initial = \<lparr>results = [], page = 1, sent = [], printed = []\<rparr>"

definition fetch_data ::
  "(nat \<Rightarrow> bool) \<Rightarrow> (request \<Rightarrow> reply) \<Rightarrow> string \<Rightarrow> int \<Rightarrow> string \<Rightarrow> fetched option" where
  "fetch_data stdout_takes get category count access_token =
     fetch_loop stdout_takes get category count (auth_headers access_token) initial"

text \<open>The first \<open>n\<close> passes of the loop, for runs that are still going as well.\<close>

fun fetch_steps ::
  "nat \<Rightarrow> (nat \<Rightarrow> bool) \<Rightarrow> (request \<Rightarrow> reply) \<Rightarrow> string \<Rightarrow> int \<Rightarrow> (string \<times> string) list \<Rightarrow>
   loop_state \<Rightarrow> step" where
  "fetch_steps 0 stdout_takes get category count hdrs s = Next s"
| "fetch_steps (Suc n) stdout_takes get category count hdrs s =
     (case iteration stdout_takes get category count hdrs s of
        Next s' \<Rightarrow> fetch_steps n stdout_takes get category count hdrs s'
      | Return r \<Rightarrow> Return r)"

definition fetch_prefix ::
  "nat \<Rightarrow> (nat \<Rightarrow> bool) \<Rightarrow> (request \<Rightarrow> reply) \<Rightarrow> string \<Rightarrow> int \<Rightarrow> string \<Rightarrow> step" where
  "fetch_prefix n stdout_takes get category count access_token =
     fetch_steps n stdout_takes get category count (auth_headers access_token) initial"

fun sent_of :: "step \<Rightarrow> request list" where
  "sent_of (Next s) = sent s"
| "sent_of (Return r) = requests_sent r"

section \<open>main\<close>

text \<open>
  The command line as \<^verbatim>\<open>argparse\<close> sees it after splitting: the text given for each
  argument, or nothing. \<^verbatim>\<open>parse_args\<close> fills in the defaults, converts \<^verbatim>\<open>--count\<close>
  with \<^verbatim>\<open>int\<close> and checks \<^verbatim>\<open>--output\<close> against its choices; where it rejects the
  command line it exits. The conversion \<^verbatim>\<open>int\<close> of a string is a parameter.
\<close>

record command_line =
  given_access_token :: "string option"
  given_category :: "string option"
  given_count :: "string option"
  given_output :: "string option"

record namespace =
  arg_access_token :: string
  arg_category :: string
  arg_count :: int
  arg_output :: string

definition parse_args :: "(string \<Rightarrow> int option) \<Rightarrow> command_line \<Rightarrow> error + namespace" where
  "parse_args to_int argv =
     (case given_access_token argv of
        None \<Rightarrow> Inl SystemExit
      | Some tok \<Rightarrow>
          (case (case given_count argv of None \<Rightarrow> Some 1000 | Some c \<Rightarrow> to_int c) of
             None \<Rightarrow> Inl SystemExit
           | Some n \<Rightarrow>
               (case given_output argv of
                  None \<Rightarrow>
                    Inr \<lparr>arg_access_token = tok,
                         arg_category = (case given_category argv of None \<Rightarrow> ''licensing'' | Some c \<Rightarrow> c),
                         arg_count = n, arg_output = ''json''\<rparr>
                | Some out \<Rightarrow>
                    if out \<in> set [''json'', ''csv''] then
                      Inr \<lparr>arg_access_token = tok,
                           arg_category = (case given_category argv of None \<Rightarrow> ''licensing'' | Some c \<Rightarrow> c),
                           arg_count = n, arg_output = out\<rparr>
                    else Inl SystemExit)))"

text \<open>
  The files of the working directory. A file written by \<^verbatim>\<open>json.dump(value, f, indent=k)\<close>
  is held as that value and indent, a file written through \<^verbatim>\<open>csv.writer\<close> as the rows
  that were written, each row the list of its field values. The operating system is
  taken to grant every open and write: a missing permission or a full disk is not
  modelled.
\<close>

datatype content =
    JsonDump json nat
  | CsvRows "json list list"

type_synonym files = "string \<rightharpoonup> content"

text \<open>\<^verbatim>\<open>d.keys()\<close>: only a dict has the method.\<close>

fun keys :: "json \<Rightarrow> error + pystr list" where
  "keys (JObj kvs) = Inr (map fst kvs)"
| "keys _ = Inl AttributeError"

text \<open>
  \<^verbatim>\<open>DictWriter._dict_to_list\<close> with the defaults \<^verbatim>\<open>extrasaction='raise'\<close> and
  \<^verbatim>\<open>restval=''\<close>: a key outside the field names is a \<^verbatim>\<open>ValueError\<close>, a field name the
  dict lacks is written as the empty string.
\<close>

definition dict_get :: "(pystr \<times> json) list \<Rightarrow> pystr \<Rightarrow> json \<Rightarrow> json" where
  "dict_get kvs k restval = (case map_of kvs k of None \<Rightarrow> restval | Some v \<Rightarrow> v)"

fun dict_to_list :: "pystr list \<Rightarrow> json \<Rightarrow> error + json list" where
  "dict_to_list fieldnames (JObj kvs) =
     (if \<not> set (map fst kvs) \<subseteq> set fieldnames then Inl ValueError
      else Inr (map (\<lambda>k. dict_get kvs k (JStr [])) fieldnames))"
| "dict_to_list fieldnames _ = Inl AttributeError"

text \<open>
  \<^verbatim>\<open>csv.writer.writerow\<close>: the fields are turned into one line of text, which is
  written to the file in a single \<^verbatim>\<open>write\<close>. The file was opened in text mode with the
  default error handling, so the write raises \<^verbatim>\<open>UnicodeEncodeError\<close>, and nothing of the
  row is written, when the file's encoding cannot encode the text of a field. Whether it
  can, for a given field value, depends on the encoding the file was opened with, the
  locale's, and is the parameter \<open>file_takes\<close>.
\<close>

definition writerow ::
  "(json \<Rightarrow> bool) \<Rightarrow> json list \<Rightarrow> json list list \<Rightarrow> error + json list list" where
  "writerow file_takes row rows =
     (if list_all file_takes row then Inr (rows @ [row]) else Inl UnicodeEncodeError)"

text \<open>\<^verbatim>\<open>DictWriter.writeheader\<close>: the row of the dict that maps each field name to itself.\<close>

definition writeheader ::
  "(json \<Rightarrow> bool) \<Rightarrow> pystr list \<Rightarrow> json list list \<Rightarrow> error + json list list" where
  "writeheader file_takes fieldnames rows =
     (case dict_to_list fieldnames (JObj (zip fieldnames (map JStr fieldnames))) of
        Inl e \<Rightarrow> Inl e
      | Inr row \<Rightarrow> writerow file_takes row rows)"

text \<open>
  \<^verbatim>\<open>DictWriter.writerows\<close>: the rows are converted and written one after the other, so
  the rows before a failing one are in the file already.
\<close>

fun writerows ::
  "(json \<Rightarrow> bool) \<Rightarrow> pystr list \<Rightarrow> json list \<Rightarrow> json list list \<Rightarrow>
   error option \<times> json list list" where
  "writerows file_takes fieldnames [] rows = (None, rows)"
| "writerows file_takes fieldnames (r # rs) rows =
     (case dict_to_list fieldnames r of
        Inl e \<Rightarrow> (Some e, rows)
      | Inr row \<Rightarrow>
          (case writerow file_takes row rows of
             Inl e \<Rightarrow> (Some e, rows)
           | Inr rows' \<Rightarrow> writerows file_takes fieldnames rs rows'))"

text \<open>
  The export step of \<^verbatim>\<open>main\<close>: the exception that ends it, if any, the lines it
  prints and the files afterwards. \<^verbatim>\<open>open(name, 'w')\<close> creates the file, or empties it,
  before anything is written. \<^verbatim>\<open>json.dump\<close> writes ASCII only.
\<close>

definition export ::
  "(json \<Rightarrow> bool) \<Rightarrow> string \<Rightarrow> json list \<Rightarrow> files \<Rightarrow> error option \<times> event list \<times> files" where
  "export file_takes out rs fs =
     (if out = ''json'' then
        (None, [PrintJsonSaved (length rs)],
         fs(''paginated_results.json'' \<mapsto> JsonDump (JArr rs) 2))
      else if out = ''csv'' then
        (let fs1 = fs(''paginated_results.csv'' \<mapsto> CsvRows [])
         in case rs of
              [] \<Rightarrow> (Some IndexError, [], fs1)
            | r0 # _ \<Rightarrow>
                (case keys r0 of
                   Inl e \<Rightarrow> (Some e, [], fs1)
                 | Inr fieldnames \<Rightarrow>
                     (case writeheader file_takes fieldnames [] of
                        Inl e \<Rightarrow> (Some e, [], fs1)
                      | Inr header \<Rightarrow>
                          (case writerows file_takes fieldnames rs header of
                             (Some e, rows) \<Rightarrow>
                               (Some e, [], fs(''paginated_results.csv'' \<mapsto> CsvRows rows))
                           | (None, rows) \<Rightarrow>
                               (None, [PrintCsvSaved (length rs)],
                                fs(''paginated_results.csv'' \<mapsto> CsvRows rows))))))
      else (None, [PrintInvalidFormat], fs))"

text \<open>How a run of the program ends.\<close>

record ending =
  uncaught :: "error option"
  stdout :: "event list"
  requested :: "request list"
  files_after :: files

definition main ::
  "(string \<Rightarrow> int option) \<Rightarrow> (nat \<Rightarrow> bool) \<Rightarrow> (json \<Rightarrow> bool) \<Rightarrow> (request \<Rightarrow> reply) \<Rightarrow>
   command_line \<Rightarrow> files \<Rightarrow> ending option" where
  "main to_int stdout_takes file_takes get argv fs =
     (case parse_args to_int argv of
        Inl e \<Rightarrow> Some \<lparr>uncaught = Some e, stdout = [], requested = [], files_after = fs\<rparr>
      | Inr args \<Rightarrow>
          (case fetch_data stdout_takes get (arg_category args) (arg_count args)
                  (arg_access_token args) of
             None \<Rightarrow> None
           | Some f \<Rightarrow>
               (case returned f of
                  Inl e \<Rightarrow>
                    Some \<lparr>uncaught = Some e, stdout = lines_printed f,
                          requested = requests_sent f, files_after = fs\<rparr>
                | Inr rs \<Rightarrow>
                    (case export file_takes (arg_output args) rs fs of
                       (err, lines, fs') \<Rightarrow>
                         Some \<lparr>uncaught = err, stdout = lines_printed f @ lines,
                               requested = requests_sent f, files_after = fs'\<rparr>))))"

section \<open>UTF-8\<close>

text \<open>
  The usual encoding of standard output and of text files. It encodes every code point
  but the surrogates, 55296 (U+D800) to 57343 (U+DFFF). The text \<^verbatim>\<open>csv.writer\<close> writes
  for a field that is a string is the string; for any other value it is ASCII
  (numbers, \<^verbatim>\<open>True\<close>, the empty text of \<^verbatim>\<open>None\<close>) or a \<^verbatim>\<open>repr\<close>, which escapes
  surrogates.
\<close>

definition utf8 :: "nat \<Rightarrow> bool" where
  "utf8 c = (c < 55296 \<or> 57343 < c)"

fun utf8_field :: "json \<Rightarrow> bool" where
  "utf8_field (JStr s) = list_all utf8 s"
| "utf8_field _ = True"

section \<open>The pages a server gives\<close>

text \<open>The request for page \<open>p\<close>, as the interface of the remote API describes it.\<close>

definition page_request :: "string \<Rightarrow> int \<Rightarrow> string \<Rightarrow> int \<Rightarrow> request" where
  "page_request category count access_token p =
     \<lparr>url = ''https://app.fossa.com/api/v2/issues/exceptions?filters[category]='' @ category @
             ''&page='' @ str_int p @ ''&count='' @ str_int count,
      headers = [(''accept'', ''application/json''), (''authorization'', ''Bearer '' @ access_token)]\<rparr>"

text \<open>The array under \<^verbatim>\<open>exceptions\<close> of a response with status 200 whose body is an object.\<close>

fun exceptions_array :: "reply \<Rightarrow> json list option" where
  "exceptions_array (Response status_code (Some (JObj kvs))) =
     (if status_code = 200 then
        (case map_of kvs (py ''exceptions'') of Some (JArr xs) \<Rightarrow> Some xs | _ \<Rightarrow> None)
      else None)"
| "exceptions_array _ = None"






section \<open>The rows of a CSV export\<close>

text \<open>The row of a record under the header: the value of each header key, or the empty string.\<close>

definition row_of :: "pystr list \<Rightarrow> (pystr \<times> json) list \<Rightarrow> json list" where
  "row_of header r = map (\<lambda>k. dict_get r k (JStr [])) header"

text \<open>
  A record is written under the header when all its keys are header keys and the file
  can take every field of its row.
\<close>

definition written :: "(json \<Rightarrow> bool) \<Rightarrow> pystr list \<Rightarrow> (pystr \<times> json) list \<Rightarrow> bool" where
  "written file_takes header r =
     (set (map fst r) \<subseteq> set header \<and> list_all file_takes (row_of header r))"

section \<open>Example servers\<close>




text \<open>Every request is answered with status 200 and the body \<^verbatim>\<open>null\<close>.\<close>

definition null_server :: "request \<Rightarrow> reply" where
  "null_server req = Response 200 (Some JNull)"

section \<open>Strings\<close>

lemma py_eq_iff [simp]: "py s = py t \<longleftrightarrow> s = t"
  unfolding py_def by (rule inj_map_eq_map) (rule inj_of_char)

lemma py_Nil [simp]: "py [] = []"
  by (simp add: py_def)

lemma py_eq_Nil [simp]: "py s = [] \<longleftrightarrow> s = []"
  by (simp add: py_def)

lemma of_char_less_256: "of_char c < (256::nat)"
proof -
  have "(of_char c :: nat) mod 256 < 256" by simp
  then show ?thesis by (simp only: of_char_mod_256)
qed

lemma utf8_py [simp]: "list_all utf8 (py s)"
proof -
  have "utf8 (of_char c)" for c
    using of_char_less_256 [of c] unfolding utf8_def by linarith
  then show ?thesis by (simp add: py_def list_all_iff)
qed

lemma utf8_field_py [simp]: "utf8_field (JStr (py s))"
  by (simp add: utf8_py)

lemma can_print_falsy: "\<not> truthy data \<Longrightarrow> can_print enc data"
  by (cases data) auto

section \<open>The loop body\<close>

lemma format_base_url:
  "format_str base_url [(''category'', c), (''page'', p), (''count'', n)]
   = Inr (''https://app.fossa.com/api/v2/issues/exceptions?filters[category]='' @ c @ ''&page='' @ p @ ''&count='' @ n)"
  by (simp add: format_str_def base_url_def sum.map_comp comp_def)

lemma iteration_eq:
  "iteration enc get c n (auth_headers t) s =
   on_response enc (s\<lparr>sent := sent s @ [page_request c n t (page s)]\<rparr>)
     (get (page_request c n t (page s)))"
  by (simp add: iteration_def format_base_url page_request_def auth_headers_def Let_def)


lemma on_response_falsy:
  "\<not> truthy data \<Longrightarrow>
   on_response enc s1 (Response 200 (Some data)) =
     Return \<lparr>returned = Inr (results s1), requests_sent = sent s1,
             lines_printed = printed s1 @ [PrintData data, PrintPaginate (page s1)]\<rparr>"
  by (simp add: on_response_def finish_def Let_def can_print_falsy)

lemma on_response_unprintable:
  "on_response utf8 s1 (Response 200 (Some (JStr [55296]))) =
     Return \<lparr>returned = Inl UnicodeEncodeError, requests_sent = sent s1,
             lines_printed = printed s1\<rparr>"
  by (simp add: on_response_def finish_def utf8_def)


lemma map_of_key: "map_of kvs k = Some v \<Longrightarrow> k \<in> fst ` set kvs"
  by (metis map_of_eq_None_iff option.distinct(1))

lemma on_response_items:
  "map_of kvs (py ''exceptions'') = Some items \<Longrightarrow>
   on_response enc s1 (Response 200 (Some (JObj kvs))) =
     (if \<not> truthy items then
        Return \<lparr>returned = Inr (results s1), requests_sent = sent s1,
                lines_printed = printed s1 @ [PrintData (JObj kvs), PrintPaginate (page s1)]\<rparr>
      else case iter_items items of
        Inl e \<Rightarrow>
          Return \<lparr>returned = Inl e, requests_sent = sent s1,
                  lines_printed = printed s1 @ [PrintData (JObj kvs), PrintPaginate (page s1)]\<rparr>
      | Inr xs \<Rightarrow>
          Next \<lparr>results = results s1 @ xs, page = page s1 + 1, sent = sent s1,
                printed = printed s1 @ [PrintData (JObj kvs), PrintPaginate (page s1)]\<rparr>)"
proof -
  assume m: "map_of kvs (py ''exceptions'') = Some items"
  then have "(py ''exceptions'') \<in> fst ` set kvs" by (rule map_of_key)
  moreover from this have "kvs \<noteq> []" by auto
  ultimately show ?thesis using m
    by (cases s1) (simp add: on_response_def finish_def Let_def split: sum.splits)
qed


lemma exceptions_arrayE:
  assumes "exceptions_array r = Some xs"
  obtains kvs where "r = Response 200 (Some (JObj kvs))"
    and "map_of kvs (py ''exceptions'') = Some (JArr xs)"
  using assms
  by (cases r rule: exceptions_array.cases) (auto split: option.splits if_splits json.splits)




lemma iteration_array:
  assumes "exceptions_array (get (page_request c n t (page s))) = Some xs" and "xs \<noteq> []"
  shows "\<exists>out. iteration enc get c n (auth_headers t) s =
         Next \<lparr>results = results s @ xs, page = page s + 1,
               sent = sent s @ [page_request c n t (page s)], printed = out\<rparr>"
proof -
  from assms(1) obtain kvs where g: "get (page_request c n t (page s)) = Response 200 (Some (JObj kvs))"
    and m: "map_of kvs (py ''exceptions'') = Some (JArr xs)"
    by (rule exceptions_arrayE)
  from m assms(2) show ?thesis
    unfolding iteration_eq g by (simp add: on_response_items)
qed

lemma on_response_sent: "sent_of (on_response enc s1 r) = sent s1"
  by (simp add: on_response_def finish_def Let_def
      split: sum.splits reply.splits option.splits bool.splits)

lemma on_response_page: "on_response enc s1 r = Next s' \<Longrightarrow> page s' = page s1 + 1"
  by (auto simp: on_response_def finish_def Let_def
      split: sum.splits reply.splits option.splits bool.splits if_splits)

lemma iteration_sent:
  "sent_of (iteration enc get c n (auth_headers t) s) = sent s @ [page_request c n t (page s)]"
  by (simp add: iteration_eq on_response_sent)

lemma iteration_page:
  "iteration enc get c n (auth_headers t) s = Next s' \<Longrightarrow> page s' = page s + 1"
  unfolding iteration_eq by (drule on_response_page) simp


lemma upto_shift: "map f [p..p + int m - 1] = map (\<lambda>i. f (p + int i)) [0..<m]"
proof (induction m)
  case 0
  show ?case by simp
next
  case (Suc m)
  have "[p..p + int (Suc m) - 1] = [p..p + int m - 1] @ [p + int m]"
    by (simp add: upto_rec2)
  with Suc show ?case by simp
qed

lemma fetch_steps_sent:
  "\<exists>m. sent_of (fetch_steps k enc get c n (auth_headers t) s) =
         sent s @ map (\<lambda>i. page_request c n t (page s + int i)) [0..<m]"
proof (induction k arbitrary: s)
  case 0
  have "sent_of (fetch_steps 0 enc get c n (auth_headers t) s) =
        sent s @ map (\<lambda>i. page_request c n t (page s + int i)) [0..<0]" by simp
  then show ?case by blast
next
  case (Suc k)
  show ?case
  proof (cases "iteration enc get c n (auth_headers t) s")
    case (Return r)
    with iteration_sent [of enc get c n t s]
    have "sent_of (fetch_steps (Suc k) enc get c n (auth_headers t) s) =
          sent s @ map (\<lambda>i. page_request c n t (page s + int i)) [0..<1]" by simp
    then show ?thesis by blast
  next
    case (Next s')
    from Next iteration_sent [of enc get c n t s] have s': "sent s' = sent s @ [page_request c n t (page s)]"
      by simp
    from Next have p': "page s' = page s + 1" by (rule iteration_page)
    from Suc.IH [of s'] obtain m where
      "sent_of (fetch_steps k enc get c n (auth_headers t) s') =
       sent s' @ map (\<lambda>i. page_request c n t (page s' + int i)) [0..<m]" by blast
    with Next s' p' have "sent_of (fetch_steps (Suc k) enc get c n (auth_headers t) s) =
       sent s @ map (\<lambda>i. page_request c n t (page s + int i)) [0..<Suc m]"
      by (simp add: map_upt_Suc add.assoc del: upt_Suc)
    then show ?thesis by blast
  qed
qed


lemma pages_upto: "map (\<lambda>i. f (1 + int i)) [0..<m] = map f [1..int m]"
  using upto_shift [of f 1 m] by simp




lemma fetch_loop_Some:
  assumes "fetch_loop enc get c n h s = Some r"
  shows "\<exists>k. fetch_steps k enc get c n h s = Return r"
proof (rule fetch_loop.raw_induct
    [where P = "\<lambda>enc get c n h s r. \<exists>k. fetch_steps k enc get c n h s = Return r", OF _ assms])
  fix loop :: "(nat \<Rightarrow> bool) \<Rightarrow> (request \<Rightarrow> reply) \<Rightarrow> string \<Rightarrow> int \<Rightarrow> (string \<times> string) list \<Rightarrow>
    loop_state \<Rightarrow> fetched option"
  fix enc get c n h s r
  assume IH: "\<And>enc get c n h s r. loop enc get c n h s = Some r \<Longrightarrow>
      \<exists>k. fetch_steps k enc get c n h s = Return r"
    and eq: "(case iteration enc get c n h s of Next s' \<Rightarrow> loop enc get c n h s'
             | Return r \<Rightarrow> Some r) = Some r"
  show "\<exists>k. fetch_steps k enc get c n h s = Return r"
  proof (cases "iteration enc get c n h s")
    case (Next s')
    with eq have "loop enc get c n h s' = Some r" by simp
    then have "\<exists>k. fetch_steps k enc get c n h s' = Return r" by (rule IH)
    then obtain k where "fetch_steps k enc get c n h s' = Return r" by blast
    with Next have "fetch_steps (Suc k) enc get c n h s = Return r" by simp
    then show ?thesis by blast
  next
    case (Return r')
    with eq have "fetch_steps (Suc 0) enc get c n h s = Return r" by simp
    then show ?thesis by blast
  qed
qed

lemma fetch_loop_falsy:
  assumes "get (page_request c n t (page s)) = Response 200 (Some data)" and "\<not> truthy data"
  shows "fetch_loop enc get c n (auth_headers t) s =
           Some \<lparr>returned = Inr (results s),
                 requests_sent = sent s @ [page_request c n t (page s)],
                 lines_printed = printed s @ [PrintData data, PrintPaginate (page s)]\<rparr>"
  using assms
  by (subst fetch_loop.simps) (simp add: iteration_eq on_response_falsy)

lemma fetch_data_prefix:
  "fetch_data enc get c n t = Some r \<Longrightarrow> \<exists>k. fetch_prefix k enc get c n t = Return r"
  unfolding fetch_data_def fetch_prefix_def by (rule fetch_loop_Some)

text \<open>
  A server whose every page holds a non-empty array keeps the loop going for ever: the
  call never returns.
\<close>

lemma fetch_steps_endless:
  assumes "\<And>p. 1 \<le> p \<Longrightarrow> \<exists>xs. exceptions_array (get (page_request c n t p)) = Some xs \<and> xs \<noteq> []"
  shows "1 \<le> page s \<Longrightarrow> \<exists>s'. fetch_steps k enc get c n (auth_headers t) s = Next s'"
proof (induction k arbitrary: s)
  case 0
  show ?case by simp
next
  case (Suc k)
  from assms [OF Suc.prems] obtain xs where
    "exceptions_array (get (page_request c n t (page s))) = Some xs" and "xs \<noteq> []" by blast
  then obtain out where
    it: "iteration enc get c n (auth_headers t) s =
         Next \<lparr>results = results s @ xs, page = page s + 1,
               sent = sent s @ [page_request c n t (page s)], printed = out\<rparr>"
    using iteration_array [of get c n t s xs enc] by blast
  from Suc.prems have "1 \<le> page \<lparr>results = results s @ xs, page = page s + 1,
               sent = sent s @ [page_request c n t (page s)], printed = out\<rparr>" by simp
  from Suc.IH [OF this] it show ?case by simp
qed

lemma fetch_data_endless:
  assumes "\<And>p. 1 \<le> p \<Longrightarrow> \<exists>xs. exceptions_array (get (page_request c n t p)) = Some xs \<and> xs \<noteq> []"
  shows "fetch_data enc get c n t = None"
proof (rule ccontr)
  assume "fetch_data enc get c n t \<noteq> None"
  then obtain r where "fetch_data enc get c n t = Some r" by auto
  then obtain k where "fetch_prefix k enc get c n t = Return r" by (auto dest: fetch_data_prefix)
  moreover have "\<exists>s'. fetch_prefix k enc get c n t = Next s'"
    unfolding fetch_prefix_def
    by (rule fetch_steps_endless) (use assms in \<open>auto simp: initial_def\<close>)
  ultimately show False by auto
qed





section \<open>Rows and printed lines\<close>

lemma export_csv_empty:
  "export ft ''csv'' [] fs = (Some IndexError, [], fs(''paginated_results.csv'' \<mapsto> CsvRows []))"
  by (simp add: export_def)

lemma header_row: "dict_to_list ks (JObj (zip ks (map JStr ks))) = Inr (map JStr ks)"
  by (simp add: dict_get_def map_of_zip_map cong: map_cong)

lemma writeheader_eq:
  "writeheader ft ks rows =
     (if list_all ft (map JStr ks) then Inr (rows @ [map JStr ks]) else Inl UnicodeEncodeError)"
  by (simp add: writeheader_def header_row writerow_def del: dict_to_list.simps)

lemma dict_to_list_row:
  "dict_to_list ks (JObj r) = (if set (map fst r) \<subseteq> set ks then Inr (row_of ks r) else Inl ValueError)"
  by (simp add: row_of_def)

lemma writerows_Cons_object:
  "writerows ft ks (JObj r # rs) rows =
     (if \<not> set (map fst r) \<subseteq> set ks then (Some ValueError, rows)
      else if \<not> list_all ft (row_of ks r) then (Some UnicodeEncodeError, rows)
      else writerows ft ks rs (rows @ [row_of ks r]))"
  by (simp add: row_of_def writerow_def)

lemma writerows_objects:
  "writerows ft ks (map JObj recs) rows =
     (case dropWhile (written ft ks) recs of
        [] \<Rightarrow> (None, rows @ map (row_of ks) recs)
      | r # _ \<Rightarrow>
          (Some (if set (map fst r) \<subseteq> set ks then UnicodeEncodeError else ValueError),
           rows @ map (row_of ks) (takeWhile (written ft ks) recs)))"
proof (induction recs arbitrary: rows)
  case Nil
  show ?case by simp
next
  case (Cons r recs)
  show ?case
  proof (cases "written ft ks r")
    case True
    then have "set (map fst r) \<subseteq> set ks" and "list_all ft (row_of ks r)"
      by (simp_all add: written_def)
    then have "writerows ft ks (map JObj (r # recs)) rows =
               writerows ft ks (map JObj recs) (rows @ [row_of ks r])"
      unfolding list.map writerows_Cons_object by simp
    also have "\<dots> =
       (case dropWhile (written ft ks) recs of
          [] \<Rightarrow> (None, (rows @ [row_of ks r]) @ map (row_of ks) recs)
        | r' # _ \<Rightarrow>
            (Some (if set (map fst r') \<subseteq> set ks then UnicodeEncodeError else ValueError),
             (rows @ [row_of ks r]) @ map (row_of ks) (takeWhile (written ft ks) recs)))"
      by (rule Cons.IH)
    also have "\<dots> =
       (case dropWhile (written ft ks) (r # recs) of
          [] \<Rightarrow> (None, rows @ map (row_of ks) (r # recs))
        | r' # _ \<Rightarrow>
            (Some (if set (map fst r') \<subseteq> set ks then UnicodeEncodeError else ValueError),
             rows @ map (row_of ks) (takeWhile (written ft ks) (r # recs))))"
      using True by (simp cong: list.case_cong)
    finally show ?thesis .
  next
    case False
    then show ?thesis
      unfolding list.map writerows_Cons_object by (auto simp: written_def)
  qed
qed

lemma export_csv_objects:
  "export ft ''csv'' (JObj r0 # map JObj rest) fs =
     (if \<not> list_all ft (map JStr (map fst r0)) then
        (Some UnicodeEncodeError, [], fs(''paginated_results.csv'' \<mapsto> CsvRows []))
      else
        case dropWhile (written ft (map fst r0)) (r0 # rest) of
          [] \<Rightarrow>
            (None, [PrintCsvSaved (Suc (length rest))],
             fs(''paginated_results.csv'' \<mapsto>
                CsvRows (map JStr (map fst r0) # map (row_of (map fst r0)) (r0 # rest))))
        | r # _ \<Rightarrow>
            (Some (if set (map fst r) \<subseteq> set (map fst r0) then UnicodeEncodeError
                   else ValueError), [],
             fs(''paginated_results.csv'' \<mapsto>
                CsvRows (map JStr (map fst r0) #
                         map (row_of (map fst r0))
                           (takeWhile (written ft (map fst r0)) (r0 # rest))))))"
proof (cases "list_all ft (map JStr (map fst r0))")
  case False
  then show ?thesis by (simp add: export_def writeheader_eq)
next
  case True
  have w: "writerows ft (map fst r0) (JObj r0 # map JObj rest) [map JStr (map fst r0)] =
        writerows ft (map fst r0) (map JObj (r0 # rest)) [map JStr (map fst r0)]" by simp
  have "export ft ''csv'' (JObj r0 # map JObj rest) fs =
        (case writerows ft (map fst r0) (JObj r0 # map JObj rest) [map JStr (map fst r0)] of
           (Some e, rows) \<Rightarrow> (Some e, [], fs(''paginated_results.csv'' \<mapsto> CsvRows rows))
         | (None, rows) \<Rightarrow>
             (None, [PrintCsvSaved (Suc (length rest))],
              fs(''paginated_results.csv'' \<mapsto> CsvRows rows)))"
    using True
    by (simp add: export_def writeheader_eq del: writerows.simps map_map
        split: prod.splits option.splits)
  also have "\<dots> = (case dropWhile (written ft (map fst r0)) (r0 # rest) of
          [] \<Rightarrow>
            (None, [PrintCsvSaved (Suc (length rest))],
             fs(''paginated_results.csv'' \<mapsto>
                CsvRows (map JStr (map fst r0) # map (row_of (map fst r0)) (r0 # rest))))
        | r # _ \<Rightarrow>
            (Some (if set (map fst r) \<subseteq> set (map fst r0) then UnicodeEncodeError
                   else ValueError), [],
             fs(''paginated_results.csv'' \<mapsto>
                CsvRows (map JStr (map fst r0) #
                         map (row_of (map fst r0))
                           (takeWhile (written ft (map fst r0)) (r0 # rest))))))"
    unfolding w writerows_objects
    by (cases "dropWhile (written ft (map fst r0)) (r0 # rest)") simp_all
  finally show ?thesis using True by simp
qed

lemma dict_get_present: "k \<in> fst ` set r \<Longrightarrow> dict_get r k d = the (map_of r k)"
  by (cases "map_of r k") (auto simp: dict_get_def map_of_eq_None_iff)

lemma dict_get_value: "k \<in> fst ` set r \<Longrightarrow> dict_get r k d \<in> snd ` set r"
proof -
  assume "k \<in> fst ` set r"
  then obtain v where v: "map_of r k = Some v"
    by (cases "map_of r k") (auto simp: map_of_eq_None_iff)
  then have "(k, v) \<in> set r" by (rule map_of_SomeD)
  then have "v \<in> snd ` set r" by force
  with v show ?thesis by (simp add: dict_get_def)
qed

lemma parse_args_output:
  "parse_args to_int argv = Inr args \<Longrightarrow> arg_output args = ''json'' \<or> arg_output args = ''csv''"
  by (auto simp: parse_args_def split: option.splits if_splits)

lemma export_never_invalid:
  "out = ''json'' \<or> out = ''csv'' \<Longrightarrow> PrintInvalidFormat \<notin> set (fst (snd (export ft out rs fs)))"
  by (auto simp: export_def Let_def split: list.splits sum.splits prod.splits option.splits)

lemma on_response_printed_next:
  "on_response enc s1 r = Next s' \<Longrightarrow> PrintInvalidFormat \<notin> set (printed s1) \<Longrightarrow>
   PrintInvalidFormat \<notin> set (printed s')"
  by (auto simp: on_response_def finish_def Let_def
      split: sum.splits reply.splits option.splits bool.splits if_splits)

lemma on_response_printed_return:
  "on_response enc s1 r = Return f \<Longrightarrow> PrintInvalidFormat \<notin> set (printed s1) \<Longrightarrow>
   PrintInvalidFormat \<notin> set (lines_printed f)"
  by (auto simp: on_response_def finish_def Let_def
      split: sum.splits reply.splits option.splits bool.splits if_splits)

lemma iteration_printed_next:
  "iteration enc get c n h s = Next s' \<Longrightarrow> PrintInvalidFormat \<notin> set (printed s) \<Longrightarrow>
   PrintInvalidFormat \<notin> set (printed s')"
  by (auto simp: iteration_def finish_def Let_def split: sum.splits
      dest!: on_response_printed_next)

lemma iteration_printed_return:
  "iteration enc get c n h s = Return f \<Longrightarrow> PrintInvalidFormat \<notin> set (printed s) \<Longrightarrow>
   PrintInvalidFormat \<notin> set (lines_printed f)"
  by (auto simp: iteration_def finish_def Let_def split: sum.splits
      dest!: on_response_printed_return)

lemma fetch_steps_printed:
  "fetch_steps k enc get c n h s = Return f \<Longrightarrow> PrintInvalidFormat \<notin> set (printed s) \<Longrightarrow>
   PrintInvalidFormat \<notin> set (lines_printed f)"
proof (induction k arbitrary: s)
  case 0
  then show ?case by simp
next
  case (Suc k)
  show ?case
  proof (cases "iteration enc get c n h s")
    case (Next s')
    with Suc.prems(1) have "fetch_steps k enc get c n h s' = Return f" by simp
    moreover from Next Suc.prems(2) have "PrintInvalidFormat \<notin> set (printed s')"
      by (rule iteration_printed_next)
    ultimately show ?thesis by (rule Suc.IH)
  next
    case (Return f')
    with Suc.prems(1) have "iteration enc get c n h s = Return f" by simp
    then show ?thesis using Suc.prems(2) by (rule iteration_printed_return)
  qed
qed

section \<open>Pagination\<close>







text \<open>
  Claim C8. The requests \<^verbatim>\<open>fetch_data\<close> has sent after any number of passes through its
  loop are, in order, those for pages 1, 2, 3, ...: each has the URL of the template with
  the category, the page number and the count put in, and the two headers \<^verbatim>\<open>accept\<close>
  and \<^verbatim>\<open>authorization\<close>. By \<open>fetch_data_prefix\<close> this covers the requests of every
  call that returns or raises as well.
\<close>

theorem requests_follow_template:
  "sent_of (fetch_prefix k stdout_takes get category count access_token) =
     map (\<lambda>p. \<lparr>url = ''https://app.fossa.com/api/v2/issues/exceptions?filters[category]='' @
                      category @ ''&page='' @ str_int p @ ''&count='' @ str_int count,
               headers = [(''accept'', ''application/json''),
                          (''authorization'', ''Bearer '' @ access_token)]\<rparr>)
       [1..int (length (sent_of (fetch_prefix k stdout_takes get category count access_token)))]"
proof -
  from fetch_steps_sent [of k stdout_takes get category count access_token initial] obtain m where
    m: "sent_of (fetch_prefix k stdout_takes get category count access_token) =
        map (\<lambda>i. page_request category count access_token (1 + int i)) [0..<m]"
    by (auto simp: fetch_prefix_def initial_def)
  then have "length (sent_of (fetch_prefix k stdout_takes get category count access_token)) = m" by simp
  with m pages_upto [of "page_request category count access_token" m]
  have "sent_of (fetch_prefix k stdout_takes get category count access_token) =
        map (page_request category count access_token)
          [1..int (length (sent_of (fetch_prefix k stdout_takes get category count access_token)))]"
    by simp
  moreover have "page_request category count access_token =
     (\<lambda>p. \<lparr>url = ''https://app.fossa.com/api/v2/issues/exceptions?filters[category]='' @
                      category @ ''&page='' @ str_int p @ ''&count='' @ str_int count,
               headers = [(''accept'', ''application/json''),
                          (''authorization'', ''Bearer '' @ access_token)]\<rparr>)"
    by (rule ext) (simp add: page_request_def)
  ultimately show ?thesis by simp
qed

text \<open>
  Claim C10. In any pass through the loop, a response with status 200 whose body parses
  to a false value (\<^verbatim>\<open>null\<close>, \<^verbatim>\<open>false\<close>, zero, an empty string, array or object) makes
  \<^verbatim>\<open>fetch_data\<close> return the records accumulated so far; nothing is raised, although
  \<^term>\<open>contains_key\<close> raises on a value that is not a container.
\<close>

theorem falsy_body_returns_accumulated:
  assumes "get (page_request category count access_token (page s)) = Response 200 (Some data)"
    and "\<not> truthy data"
  shows "fetch_loop stdout_takes get category count (auth_headers access_token) s =
           Some \<lparr>returned = Inr (results s),
                 requests_sent = sent s @ [page_request category count access_token (page s)],
                 lines_printed = printed s @ [PrintData data, PrintPaginate (page s)]\<rparr>"
  using assms by (rule fetch_loop_falsy)

theorem falsy_body_returns_accumulated_witness:
  "null_server (page_request ''licensing'' 1000 ''t0k'' 2) = Response 200 (Some JNull) \<and>
   \<not> truthy JNull \<and>
   contains_key (py ''exceptions'') JNull = Inl TypeError \<and>
   fetch_loop utf8 null_server ''licensing'' 1000 (auth_headers ''t0k'')
     \<lparr>results = [JObj [(py ''id'', JInt 1)]], page = 2,
      sent = [page_request ''licensing'' 1000 ''t0k'' 1], printed = []\<rparr> =
   Some \<lparr>returned = Inr [JObj [(py ''id'', JInt 1)]],
         requests_sent = [page_request ''licensing'' 1000 ''t0k'' 1,
                          page_request ''licensing'' 1000 ''t0k'' 2],
         lines_printed = [PrintData JNull, PrintPaginate 2]\<rparr>"
  using falsy_body_returns_accumulated [of null_server "''licensing''" 1000 "''t0k''"
      "\<lparr>results = [JObj [(py ''id'', JInt 1)]], page = 2,
        sent = [page_request ''licensing'' 1000 ''t0k'' 1], printed = []\<rparr>" JNull utf8]
  by (simp add: null_server_def)

section \<open>Export\<close>

text \<open>
  Claim C4, as the code has it. In CSV mode with an empty result list the export step
  raises \<^verbatim>\<open>IndexError\<close> and prints nothing; the file \<^verbatim>\<open>paginated_results.csv\<close> has been
  opened for writing by then, so it exists afterwards and is empty: no header, no row.
\<close>

theorem csv_export_empty_leaves_empty_file:
  "export file_takes ''csv'' [] fs =
     (Some IndexError, [], fs(''paginated_results.csv'' \<mapsto> CsvRows []))"
  by (rule export_csv_empty)

text \<open>
  Claim C4 as stated fails: in an empty directory the export step raises, and the
  output file is there afterwards.
\<close>

theorem csv_export_empty_counterexample:
  "\<not> (fst (export utf8_field ''csv'' [] Map.empty) \<noteq> None \<and>
      snd (snd (export utf8_field ''csv'' [] Map.empty)) ''paginated_results.csv'' = None)"
  by (simp add: export_def)

text \<open>
  Claim C6, as the code has it. For a non-empty list of records that all have the key set
  of the first one, and whose keys and values the file's encoding can all encode, CSV
  export raises nothing and writes the header row, the keys of the first record in that
  record's order, followed by one row for each record, holding the record's values under
  those keys in that order. Every such lookup finds a value.
\<close>

theorem csv_export_same_keys:
  assumes "\<forall>r\<in>set rest. set (map fst r) = set (map fst r0)"
    and "\<forall>r\<in>set (r0 # rest). \<forall>kv\<in>set r. file_takes (JStr (fst kv)) \<and> file_takes (snd kv)"
  shows "export file_takes ''csv'' (JObj r0 # map JObj rest) fs =
           (None, [PrintCsvSaved (Suc (length rest))],
            fs(''paginated_results.csv'' \<mapsto>
               CsvRows (map JStr (map fst r0) #
                        map (\<lambda>r. map (\<lambda>k. the (map_of r k)) (map fst r0)) (r0 # rest)))) \<and>
         (\<forall>r\<in>set (r0 # rest). \<forall>k\<in>set (map fst r0). map_of r k \<noteq> None)"
proof -
  from assms(1) have keys: "\<forall>r\<in>set (r0 # rest). \<forall>k\<in>set (map fst r0). k \<in> fst ` set r"
    by auto
  then have eq: "map (row_of (map fst r0)) (r0 # rest) =
             map (\<lambda>r. map (\<lambda>k. the (map_of r k)) (map fst r0)) (r0 # rest)"
    unfolding row_of_def by (auto intro!: dict_get_present)
  from assms(2) have hdr: "list_all file_takes (map JStr (map fst r0))"
    by (auto simp: list_all_iff)
  have "written file_takes (map fst r0) r" if r: "r \<in> set (r0 # rest)" for r
  proof -
    from r assms(1) have sub: "set (map fst r) \<subseteq> set (map fst r0)" by auto
    have "file_takes (dict_get r k (JStr []))" if "k \<in> set (map fst r0)" for k
    proof -
      from that r keys have "k \<in> fst ` set r" by blast
      then have "dict_get r k (JStr []) \<in> snd ` set r" by (rule dict_get_value)
      then obtain kv where kv: "kv \<in> set r" and v: "snd kv = dict_get r k (JStr [])" by auto
      from assms(2) r kv have "file_takes (JStr (fst kv)) \<and> file_takes (snd kv)" by blast
      with v show ?thesis by simp
    qed
    then have "list_all file_takes (row_of (map fst r0) r)"
      by (simp add: row_of_def list_all_iff)
    with sub show ?thesis by (simp add: written_def)
  qed
  then have "dropWhile (written file_takes (map fst r0)) (r0 # rest) = []"
    by (simp only: dropWhile_eq_Nil_conv) blast
  with hdr have "export file_takes ''csv'' (JObj r0 # map JObj rest) fs =
           (None, [PrintCsvSaved (Suc (length rest))],
            fs(''paginated_results.csv'' \<mapsto>
               CsvRows (map JStr (map fst r0) # map (row_of (map fst r0)) (r0 # rest))))"
    by (simp only: export_csv_objects list.case not_True_eq_False if_False)
  then have "export file_takes ''csv'' (JObj r0 # map JObj rest) fs =
           (None, [PrintCsvSaved (Suc (length rest))],
            fs(''paginated_results.csv'' \<mapsto>
               CsvRows (map JStr (map fst r0) #
                        map (\<lambda>r. map (\<lambda>k. the (map_of r k)) (map fst r0)) (r0 # rest))))"
    unfolding eq .
  moreover from keys have "\<forall>r\<in>set (r0 # rest). \<forall>k\<in>set (map fst r0). map_of r k \<noteq> None"
    by (simp add: map_of_eq_None_iff)
  ultimately show ?thesis by (rule conjI)
qed

theorem csv_export_same_keys_witness:
  "export utf8_field ''csv''
     [JObj [(py ''id'', JInt 1), (py ''name'', JStr (py ''x''))],
      JObj [(py ''name'', JStr (py ''y'')), (py ''id'', JInt 2)]] Map.empty =
     (None, [PrintCsvSaved 2],
      [''paginated_results.csv'' \<mapsto>
         CsvRows [[JStr (py ''id''), JStr (py ''name'')], [JInt 1, JStr (py ''x'')],
                  [JInt 2, JStr (py ''y'')]]])"
  using csv_export_same_keys [of "[[(py ''name'', JStr (py ''y'')), (py ''id'', JInt 2)]]"
      "[(py ''id'', JInt 1), (py ''name'', JStr (py ''x''))]" utf8_field Map.empty]
  by (simp add: insert_commute)

text \<open>
  Claim C6 as stated fails: three records with the same two keys, written to a UTF-8
  file. The second holds a lone surrogate, which UTF-8 cannot encode: the write raises
  \<^verbatim>\<open>UnicodeEncodeError\<close>, and the file holds the header and one row, not three.
\<close>

theorem csv_export_same_keys_counterexample:
  "export utf8_field ''csv''
     [JObj [(py ''id'', JInt 1), (py ''name'', JStr (py ''x''))],
      JObj [(py ''id'', JInt 2), (py ''name'', JStr [55296])],
      JObj [(py ''id'', JInt 3), (py ''name'', JStr (py ''z''))]] Map.empty =
     (Some UnicodeEncodeError, [],
      [''paginated_results.csv'' \<mapsto>
         CsvRows [[JStr (py ''id''), JStr (py ''name'')], [JInt 1, JStr (py ''x'')]]])"
  by (simp add: export_def writeheader_def writerow_def dict_get_def utf8_def)

text \<open>
  Claim C7, as the code has it. For a list of records, the header is the key list of the
  first one; writing it raises \<^verbatim>\<open>UnicodeEncodeError\<close> when the file's encoding cannot
  encode a key. Then the records are taken in order. A record with a key outside the
  header raises \<^verbatim>\<open>ValueError\<close>. A record with only keys of the header gives the row of
  its values by key lookup against the header, the empty string standing for a header
  key it lacks, and the row is written, unless the file's encoding cannot encode one of
  its fields, which raises \<^verbatim>\<open>UnicodeEncodeError\<close>. The first record that raises ends the
  export, the header and the rows before it being written; when none does, every row is
  written and nothing is raised.
\<close>

theorem csv_export_by_key_lookup:
  "export file_takes ''csv'' (JObj r0 # map JObj rest) fs =
     (if \<not> list_all file_takes (map JStr (map fst r0)) then
        (Some UnicodeEncodeError, [], fs(''paginated_results.csv'' \<mapsto> CsvRows []))
      else
        case dropWhile (written file_takes (map fst r0)) (r0 # rest) of
          [] \<Rightarrow>
            (None, [PrintCsvSaved (Suc (length rest))],
             fs(''paginated_results.csv'' \<mapsto>
                CsvRows (map JStr (map fst r0) # map (row_of (map fst r0)) (r0 # rest))))
        | r # _ \<Rightarrow>
            (Some (if set (map fst r) \<subseteq> set (map fst r0) then UnicodeEncodeError
                   else ValueError), [],
             fs(''paginated_results.csv'' \<mapsto>
                CsvRows (map JStr (map fst r0) #
                         map (row_of (map fst r0))
                           (takeWhile (written file_takes (map fst r0)) (r0 # rest))))))"
  by (rule export_csv_objects)

theorem csv_export_by_key_lookup_witness:
  "export utf8_field ''csv''
     [JObj [(py ''a'', JInt 1)], JObj [(py ''a'', JInt 2), (py ''b'', JInt 3)],
      JObj [(py ''a'', JInt 4)]] Map.empty =
     (Some ValueError, [],
      [''paginated_results.csv'' \<mapsto> CsvRows [[JStr (py ''a'')], [JInt 1]]])"
  using csv_export_by_key_lookup [of utf8_field "[(py ''a'', JInt 1)]"
      "[[(py ''a'', JInt 2), (py ''b'', JInt 3)], [(py ''a'', JInt 4)]]" Map.empty]
  by (simp add: written_def row_of_def dict_get_def utf8_py)

text \<open>
  Claim C7 as stated fails: the second record lacks the header key \<^verbatim>\<open>b\<close>, and the
  write does not fail; its row has the empty string in that column.
\<close>

theorem csv_export_missing_key_counterexample:
  "\<not> (set (map fst [(py ''a'', JInt 1), (py ''b'', JInt 2)]) \<subseteq> set (map fst [(py ''a'', JInt 3)]) \<or>
      fst (export utf8_field ''csv''
             [JObj [(py ''a'', JInt 1), (py ''b'', JInt 2)], JObj [(py ''a'', JInt 3)]]
             Map.empty) \<noteq> None) \<and>
   export utf8_field ''csv''
     [JObj [(py ''a'', JInt 1), (py ''b'', JInt 2)], JObj [(py ''a'', JInt 3)]] Map.empty =
     (None, [PrintCsvSaved 2],
      [''paginated_results.csv'' \<mapsto>
         CsvRows [[JStr (py ''a''), JStr (py ''b'')], [JInt 1, JInt 2], [JInt 3, JStr []]]])"
  by (simp add: export_def writeheader_def writerow_def dict_get_def)

section \<open>The output format\<close>

lemma main_null_server_csv:
  "main (\<lambda>s. None) utf8 utf8_field null_server
     \<lparr>given_access_token = Some ''t0k'', given_category = None, given_count = None,
      given_output = Some ''csv''\<rparr> Map.empty =
   Some \<lparr>uncaught = Some IndexError, stdout = [PrintData JNull, PrintPaginate 1],
         requested = [page_request ''licensing'' 1000 ''t0k'' 1],
         files_after = [''paginated_results.csv'' \<mapsto> CsvRows []]\<rparr>"
proof -
  have "fetch_data utf8 null_server ''licensing'' 1000 ''t0k'' =
        Some \<lparr>returned = Inr [], requests_sent = [page_request ''licensing'' 1000 ''t0k'' 1],
              lines_printed = [PrintData JNull, PrintPaginate 1]\<rparr>"
    using fetch_loop_falsy [of null_server "''licensing''" 1000 "''t0k''" initial JNull utf8]
    by (simp add: fetch_data_def null_server_def initial_def)
  then show ?thesis
    by (simp add: main_def parse_args_def export_csv_empty)
qed

text \<open>
  Claim C9. A command line that \<^verbatim>\<open>parse_args\<close> accepts has the output format
  \<^verbatim>\<open>json\<close> or \<^verbatim>\<open>csv\<close>, and no run of \<^verbatim>\<open>main\<close> that ends prints the line of the
  last branch, \<^verbatim>\<open>Invalid output format\<close>.
\<close>

theorem invalid_format_unreachable:
  assumes "main to_int stdout_takes file_takes get argv fs = Some w"
  shows "PrintInvalidFormat \<notin> set (stdout w) \<and>
         (\<forall>args. parse_args to_int argv = Inr args \<longrightarrow>
                   arg_output args = ''json'' \<or> arg_output args = ''csv'')"
proof
  show "\<forall>args. parse_args to_int argv = Inr args \<longrightarrow>
          arg_output args = ''json'' \<or> arg_output args = ''csv''"
    by (auto dest: parse_args_output)
  show "PrintInvalidFormat \<notin> set (stdout w)"
  proof (cases "parse_args to_int argv")
    case (Inl e)
    with assms show ?thesis by (auto simp: main_def)
  next
    case (Inr args)
    then have fmt: "arg_output args = ''json'' \<or> arg_output args = ''csv''"
      by (rule parse_args_output)
    from assms Inr obtain f where
      f: "fetch_data stdout_takes get (arg_category args) (arg_count args)
            (arg_access_token args) = Some f"
      by (auto simp: main_def split: option.splits)
    then obtain k where
      "fetch_prefix k stdout_takes get (arg_category args) (arg_count args)
         (arg_access_token args) = Return f"
      by (auto dest: fetch_data_prefix)
    then have pr: "PrintInvalidFormat \<notin> set (lines_printed f)"
      unfolding fetch_prefix_def by (rule fetch_steps_printed) (simp add: initial_def)
    show ?thesis
    proof (cases "returned f")
      case (Inl e)
      with assms Inr f pr show ?thesis by (auto simp: main_def)
    next
      case (Inr rs)
      from fmt
      have "PrintInvalidFormat \<notin> set (fst (snd (export file_takes (arg_output args) rs fs)))"
        by (rule export_never_invalid)
      with assms \<open>parse_args to_int argv = Inr args\<close> f pr Inr show ?thesis
        by (auto simp: main_def split: prod.splits)
    qed
  qed
qed

theorem invalid_format_unreachable_witness:
  "main (\<lambda>s. None) utf8 utf8_field null_server
     \<lparr>given_access_token = Some ''t0k'', given_category = None, given_count = None,
      given_output = Some ''csv''\<rparr> Map.empty =
   Some \<lparr>uncaught = Some IndexError, stdout = [PrintData JNull, PrintPaginate 1],
         requested = [page_request ''licensing'' 1000 ''t0k'' 1],
         files_after = [''paginated_results.csv'' \<mapsto> CsvRows []]\<rparr> \<and>
   PrintInvalidFormat \<notin> set [PrintData JNull, PrintPaginate 1]"
  using invalid_format_unreachable [OF main_null_server_csv] main_null_server_csv by simp

end
